theory Spec2Isabelle
  imports Main "HOL-Library.AList" "HOL-Library.Char_ord" "HOL-Library.List_Lexorder"
begin

section \<open>JavaScript values\<close>

text \<open>
  The discovery model (\<^verbatim>\<open>js/discovery/models/course_discovery\<close>, the second module of
  \<^verbatim>\<open>discovery_factory.js\<close>) reads a JSON response. A JSON value is one of the six
  kinds below; numbers are the integers (the counts and identifiers the code handles),
  strings are sequences of code units compared unit by unit.

  An object is an association list of its own properties in insertion order. A list
  denotes the object in which the first binding of a key is the property: \<open>map_of\<close>
  reads a property (\<open>None\<close> is JavaScript's \<^verbatim>\<open>undefined\<close>), \<open>AList.update\<close> assigns one
  (in place when the key exists, appended otherwise), \<open>AList.delete\<close> is
  \<^verbatim>\<open>delete\<close>, and \<open>entries\<close> enumerates the properties, each key once.

  The embedding follows the source on plain keys. A key is \<open>plain\<close> (defined below)
  when it is not the name of a member that every object inherits from
  \<^verbatim>\<open>Object.prototype\<close>. Reading a key that is not plain from an object with no own
  property of that name finds the inherited member, a truthy function (for
  \<^verbatim>\<open>__proto__\<close> the prototype itself), where \<open>map_of\<close> finds nothing; and Underscore's
  \<^verbatim>\<open>_.each\<close> reads an object with a numeric \<^verbatim>\<open>length\<close> property as an array, where
  \<open>entries\<close> enumerates its properties. The statements about tallied and merged terms
  carry these restrictions as hypotheses. JavaScript also enumerates the keys that are
  array indices first, in numeric order; the order of the other keys is the order of
  insertion, as here.
\<close>

datatype json =
    JNull
  | JBool bool
  | JNum int
  | JStr string
  | JArr "json list"
  | JObj "(string \<times> json) list"

text \<open>What \<^verbatim>\<open>if (v)\<close>, \<^verbatim>\<open>!v\<close> and \<^verbatim>\<open>v || d\<close> test.\<close>

fun truthy :: "json \<Rightarrow> bool" where
  "truthy JNull = False"
| "truthy (JBool b) = b"
| "truthy (JNum n) = (n \<noteq> 0)"
| "truthy (JStr s) = (s \<noteq> [])"
| "truthy (JArr vs) = True"
| "truthy (JObj kvs) = True"

definition digit :: "nat \<Rightarrow> char" where
  "digit d = char_of (48 + d)"

fun digits :: "nat \<Rightarrow> string" where
  "digits n = (if n < 10 then [digit n] else digits (n div 10) @ [digit (n mod 10)])"

declare digits.simps [simp del]

definition number_key :: "int \<Rightarrow> string" where
  "number_key n = (if n < 0 then CHR ''-'' # digits (nat (- n)) else digits (nat n))"

fun join :: "string \<Rightarrow> string list \<Rightarrow> string" where
  "join sep [] = []"
| "join sep [x] = x"
| "join sep (x # y # ys) = x @ sep @ join sep (y # ys)"

text \<open>
  A value used as a property key (\<^verbatim>\<open>obj[value]\<close>) is converted to a string first:
  a string is itself, a number its decimal numeral, an array its elements joined by
  commas (\<^verbatim>\<open>null\<close> as the empty string), any object \<^verbatim>\<open>[object Object]\<close>.
\<close>

fun to_key :: "json \<Rightarrow> string" where
  "to_key JNull = ''null''"
| "to_key (JBool b) = (if b then ''true'' else ''false'')"
| "to_key (JNum n) = number_key n"
| "to_key (JStr s) = s"
| "to_key (JArr vs) = join '','' (map (\<lambda>v. if v = JNull then [] else to_key v) vs)"
| "to_key (JObj kvs) = ''[object Object]''"

definition entries :: "('k \<times> 'v) list \<Rightarrow> ('k \<times> 'v) list" where
  "entries obj = AList.clearjunk obj"

definition object_keys :: "('k \<times> 'v) list \<Rightarrow> 'k list" where
  "object_keys obj = map fst (entries obj)"

text \<open>
  The names of the members of \<^verbatim>\<open>Object.prototype\<close>, which an object made by a literal
  or by \<^verbatim>\<open>JSON.parse\<close> inherits, and the keys that are none of them.
\<close>

definition inherited :: "string list" where
  "inherited =
     [''constructor'', ''hasOwnProperty'', ''isPrototypeOf'', ''propertyIsEnumerable'',
      ''toLocaleString'', ''toString'', ''valueOf'', ''__defineGetter__'',
      ''__defineSetter__'', ''__lookupGetter__'', ''__lookupSetter__'', ''__proto__'']"

definition plain :: "string \<Rightarrow> bool" where
  "plain k = (k \<notin> set inherited)"

section \<open>The response and the discovery model\<close>

text \<open>
  A response is \<^verbatim>\<open>{results: [{data: {...}}, ...], aggs: {category: entry, ...}}\<close>.
  \<open>None\<close> in \<open>results\<close> or \<open>aggs\<close> is a missing or falsy field, which
  \<^verbatim>\<open>response.results || []\<close> and \<^verbatim>\<open>response.aggs || {}\<close> replace. An entry of the
  aggregation is \<open>None\<close> when its value is \<^verbatim>\<open>null\<close> (falsy), and otherwise an object
  whose \<^verbatim>\<open>terms\<close> is a mapping from term to count, or \<open>None\<close> when the object has no
  \<^verbatim>\<open>terms\<close>.
\<close>

record result =
  data :: "(string \<times> json) list"

record facet_entry =
  terms :: "(string \<times> int) list option"
  total :: int
  other :: int

type_synonym facets = "(string \<times> facet_entry option) list"

record response =
  results :: "result list option"
  aggs :: "facets option"

record facet_option =
  facet :: string
  "term" :: string
  count :: int

record discovery =
  totalCount :: int
  latestCount :: int
  courseCards :: "(string \<times> json) list list"
  facetOptions :: "facet_option list"

datatype error = TypeError

text \<open>\<^verbatim>\<open>defaults\<close> and \<^verbatim>\<open>initialize\<close>: both counts 0, both collections empty.\<close>

definition initialize :: discovery where
  "initialize = \<lparr>totalCount = 0, latestCount = 0, courseCards = [], facetOptions = []\<rparr>"

section \<open>The two collections\<close>

text \<open>
  Modelled from the spec: the CourseCard model (\<^verbatim>\<open>js/discovery/models/course_card\<close>) is not
  among the sources. The spec gives a card an \<^verbatim>\<open>id\<close>, which is also the attribute a
  Backbone collection identifies its members by: \<^verbatim>\<open>add\<close> without \<^verbatim>\<open>merge\<close> appends a
  document, unless a card with the same id is held already; a document with no id is
  always appended.
\<close>

definition card_key :: "(string \<times> json) list \<Rightarrow> string option" where
  "card_key d =
     (case map_of d ''id'' of
        None \<Rightarrow> None
      | Some i \<Rightarrow> if i = JNull then None else Some (to_key i))"

definition add_card :: "(string \<times> json) list list \<Rightarrow> (string \<times> json) list \<Rightarrow> (string \<times> json) list list" where
  "add_card cards d =
     (case card_key d of
        None \<Rightarrow> cards @ [d]
      | Some k \<Rightarrow> if Some k \<in> set (map card_key cards) then cards else cards @ [d])"

text \<open>
  Modelled from the spec: the FacetOption model (\<^verbatim>\<open>js/discovery/models/facet_option\<close>) is
  not among the sources. By the spec an option is unique by its (facet, term) pair, and
  adding one with \<^verbatim>\<open>{merge: true}\<close> overwrites the held option of the same pair (in its
  place) and appends it when there is none.
\<close>

fun add_merge :: "facet_option list \<Rightarrow> facet_option \<Rightarrow> facet_option list" where
  "add_merge [] opt = [opt]"
| "add_merge (x # xs) opt =
     (if facet x = facet opt \<and> term x = term opt then opt # xs else x # add_merge xs opt)"

section \<open>parse: the merge of one page\<close>

text \<open>
  The filter on the page: on \<^verbatim>\<open>/videos\<close> a document is kept when its
  \<^verbatim>\<open>course_type\<close> is the string \<^verbatim>\<open>video\<close>, elsewhere when it is not.
\<close>

definition keep :: "bool \<Rightarrow> result \<Rightarrow> bool" where
  "keep isVideosPage course =
     (if isVideosPage then map_of (data course) ''course_type'' = Some (JStr ''video'')
      else map_of (data course) ''course_type'' \<noteq> Some (JStr ''video''))"

text \<open>
  ``Remove unwanted facets'': on \<^verbatim>\<open>/videos\<close> the category \<^verbatim>\<open>course_type\<close> is deleted
  when its entry is truthy; elsewhere the term \<^verbatim>\<open>video\<close> of that category is deleted
  when entry, terms and the term's count are all truthy.
\<close>

definition remove_unwanted :: "bool \<Rightarrow> facets \<Rightarrow> facets" where
  "remove_unwanted isVideosPage fs =
     (if isVideosPage then
        (case map_of fs ''course_type'' of
           Some (Some e) \<Rightarrow> AList.delete ''course_type'' fs
         | _ \<Rightarrow> fs)
      else
        (case map_of fs ''course_type'' of
           Some (Some e) \<Rightarrow>
             (case terms e of
                Some ts \<Rightarrow>
                  (case map_of ts ''video'' of
                     Some c \<Rightarrow>
                       if c \<noteq> 0
                       then AList.update ''course_type''
                              (Some (e\<lparr>terms := Some (AList.delete ''video'' ts)\<rparr>)) fs
                       else fs
                   | None \<Rightarrow> fs)
              | None \<Rightarrow> fs)
         | _ \<Rightarrow> fs))"

text \<open>
  The local tally. \<^verbatim>\<open>allFacets[facetType][value] || 0\<close> is \<open>count_of\<close>, and
  \<^verbatim>\<open>allFacets[facetType][value] = (allFacets[facetType][value] || 0) + 1\<close> is
  \<open>bump\<close>. The body of the loop over the categories, for one document and one
  category, is \<open>tally_value\<close>: nothing for an absent or falsy attribute, one \<open>bump\<close>
  per element for an array, one \<open>bump\<close> otherwise. \<open>allFacets\<close> has an entry for
  every category of \<open>facetTypes\<close>, made by the loop before, so the entry is updated
  where it stands. \<open>count_of\<close> and \<open>bump\<close> are the source's reads and writes for
  a plain key: for a key that is not plain and not yet tallied the source reads the
  inherited member and stores a string, not a count.
\<close>

definition count_of :: "(string \<times> int) list \<Rightarrow> string \<Rightarrow> int" where
  "count_of counts k = (case map_of counts k of None \<Rightarrow> 0 | Some c \<Rightarrow> c)"

definition bump :: "(string \<times> int) list \<Rightarrow> string \<Rightarrow> (string \<times> int) list" where
  "bump counts k = AList.update k (count_of counts k + 1) counts"

definition tally_value :: "json option \<Rightarrow> (string \<times> int) list \<Rightarrow> (string \<times> int) list" where
  "tally_value facetValue counts =
     (case facetValue of
        None \<Rightarrow> counts
      | Some v \<Rightarrow>
          if truthy v then
            (case v of
               JArr vs \<Rightarrow> foldl (\<lambda>cs el. bump cs (to_key el)) counts vs
             | _ \<Rightarrow> bump counts (to_key v))
          else counts)"

definition tally_course ::
  "string list \<Rightarrow> (string \<times> (string \<times> int) list) list \<Rightarrow> result \<Rightarrow> (string \<times> (string \<times> int) list) list" where
  "tally_course facetTypes allFacets course =
     foldl (\<lambda>af facetType.
              AList.map_entry facetType (tally_value (map_of (data course) facetType)) af)
           allFacets facetTypes"

definition tally :: "string list \<Rightarrow> result list \<Rightarrow> (string \<times> (string \<times> int) list) list" where
  "tally facetTypes courses =
     foldl (tally_course facetTypes) (map (\<lambda>facetType. (facetType, [])) facetTypes) courses"

text \<open>
  The merge of the tally into the aggregation. For one term of one category:
  \<^verbatim>\<open>if (!terms[term]) terms[term] = count; else terms[term] += count\<close>. This is the
  source's step for a plain term: for a term that is not plain and that the server's
  terms do not hold, the source reads the inherited member, which is truthy, and takes
  the second branch.
\<close>

definition merge_term :: "(string \<times> int) list \<Rightarrow> string \<times> int \<Rightarrow> (string \<times> int) list" where
  "merge_term ts p =
     (case map_of ts (fst p) of
        None \<Rightarrow> AList.update (fst p) (snd p) ts
      | Some c \<Rightarrow>
          if c = 0 then AList.update (fst p) (snd p) ts
          else AList.update (fst p) (c + snd p) ts)"

text \<open>
  For one category of the tally: a missing or falsy entry is replaced by an entry made
  of the tally; otherwise each tallied term is merged into the entry's terms. Reading
  \<^verbatim>\<open>facets[facetType].terms[term]\<close> when the entry has no terms raises a TypeError,
  which happens at the first tallied term. The inner loop is \<^verbatim>\<open>_.each(values, ...)\<close>:
  it visits the tallied terms, as here, unless the tally holds the term
  \<^verbatim>\<open>length\<close>, which Underscore reads as the length of an array; then it visits the
  indices below that count instead of the terms.
\<close>

definition merge_facet :: "facets \<Rightarrow> string \<times> (string \<times> int) list \<Rightarrow> error + facets" where
  "merge_facet fs p =
     (case map_of fs (fst p) of
        Some (Some e) \<Rightarrow>
          (if entries (snd p) = [] then Inr fs
           else (case terms e of
                   None \<Rightarrow> Inl TypeError
                 | Some ts \<Rightarrow>
                     Inr (AList.update (fst p)
                            (Some (e\<lparr>terms := Some (foldl merge_term ts (entries (snd p)))\<rparr>)) fs)))
      | _ \<Rightarrow>
          Inr (AList.update (fst p)
                 (Some \<lparr>terms = Some (snd p),
                        total = foldl (+) 0 (map snd (entries (snd p))),
                        other = 0\<rparr>) fs))"

fun merge_facets :: "facets \<Rightarrow> (string \<times> (string \<times> int) list) list \<Rightarrow> error + facets" where
  "merge_facets fs [] = Inr fs"
| "merge_facets fs (p # ps) =
     (case merge_facet fs p of
        Inl e \<Rightarrow> Inl e
      | Inr fs' \<Rightarrow> merge_facets fs' ps)"

text \<open>
  ``Add facet options to the collection'': the options of one category, in the order
  of \<^verbatim>\<open>_.keys(obj.terms).sort()\<close> (\<^verbatim>\<open>_.keys\<close> of a missing \<^verbatim>\<open>terms\<close> is empty), and
  the loop over the categories, which adds them one by one. An entry that is
  \<^verbatim>\<open>null\<close> would raise at \<^verbatim>\<open>obj.terms\<close>, with the options of the earlier categories
  added.
\<close>

definition options_of :: "string \<Rightarrow> facet_entry \<Rightarrow> facet_option list" where
  "options_of key obj =
     (case terms obj of
        None \<Rightarrow> []
      | Some ts \<Rightarrow>
          List.map_filter
            (\<lambda>t. map_option (\<lambda>c. \<lparr>facet = key, term = t, count = c\<rparr>) (map_of ts t))
            (sort (object_keys ts)))"

fun add_options ::
  "facet_option list \<Rightarrow> facets \<Rightarrow> (error \<times> facet_option list) + facet_option list" where
  "add_options opts [] = Inr opts"
| "add_options opts ((key, None) # rest) = Inl (TypeError, opts)"
| "add_options opts ((key, Some obj) # rest) =
     add_options (foldl add_merge opts (options_of key obj)) rest"

text \<open>
  \<open>parse\<close> itself. \<open>pathname\<close> is \<^verbatim>\<open>window.location.pathname\<close>. The result is
  \<open>Inr\<close> of the model after the call, or \<open>Inl\<close> of the error raised and the model as
  it is then: cards and counts are set before anything can raise.
\<close>

definition parse :: "string \<Rightarrow> response \<Rightarrow> discovery \<Rightarrow> (error \<times> discovery) + discovery" where
  "parse pathname response this =
     (let courses0 = (case results response of None \<Rightarrow> [] | Some rs \<Rightarrow> rs);
          facets0 = (case aggs response of None \<Rightarrow> [] | Some fs \<Rightarrow> fs);
          isVideosPage = (pathname = ''/videos'');
          courses = filter (keep isVideosPage) courses0;
          this1 = this\<lparr>courseCards := foldl add_card (courseCards this) (map data courses),
                       totalCount := int (length courses),
                       latestCount := int (length courses)\<rparr>;
          facets1 = remove_unwanted isVideosPage facets0;
          facetTypes = object_keys facets1;
          allFacets = tally facetTypes courses
      in case merge_facets facets1 (entries allFacets) of
           Inl e \<Rightarrow> Inl (e, this1)
         | Inr facets2 \<Rightarrow>
             (case add_options (facetOptions this1) (entries facets2) of
                Inl (e, opts) \<Rightarrow> Inl (e, this1\<lparr>facetOptions := opts\<rparr>)
              | Inr opts \<Rightarrow> Inr (this1\<lparr>facetOptions := opts\<rparr>)))"

definition reset :: "discovery \<Rightarrow> discovery" where
  "reset this = this\<lparr>totalCount := 0, latestCount := 0, courseCards := [], facetOptions := []\<rparr>"

text \<open>The model after a call of \<open>parse\<close>, whether it returned or raised.\<close>

definition after :: "(error \<times> discovery) + discovery \<Rightarrow> discovery" where
  "after r = (case r of Inl (e, s) \<Rightarrow> s | Inr s \<Rightarrow> s)"

text \<open>
  The documents of a page as the server sent them, and those that survive the filter
  of the page.
\<close>

definition raw :: "response \<Rightarrow> result list" where
  "raw response = (case results response of None \<Rightarrow> [] | Some rs \<Rightarrow> rs)"

definition survivors :: "string \<Rightarrow> response \<Rightarrow> result list" where
  "survivors pathname response = filter (keep (pathname = ''/videos'')) (raw response)"






section \<open>The coordinator\<close>

text \<open>
  The first module of \<^verbatim>\<open>discovery_factory.js\<close> wires the filters, the search state and
  the views by events. The views and the search state are known here by the calls the
  coordinator makes on them, recorded in order; the coordinator's own data is the
  collection of filters.
\<close>

record filter_term =
  type :: string
  query :: string
  name :: string

datatype call =
    ShowLoadingIndicator
  | HideLoadingIndicator
  | ShowFoundMessage int
  | ShowNotFoundMessage string
  | ShowErrorMessage string
  | DoSearch string
  | ListingRender
  | ListingRenderNext
  | SidebarRender
  | PerformSearch string "filter_term list"
  | RefineSearch "filter_term list"
  | LoadNextPage

record coordinator =
  filters :: "filter_term list"
  calls :: "call list"

definition emit :: "call \<Rightarrow> coordinator \<Rightarrow> coordinator" where
  "emit c s = s\<lparr>calls := calls s @ [c]\<rparr>"

text \<open>
  Modelled from the spec: the Filters collection (\<^verbatim>\<open>js/discovery/collections/filters\<close>)
  is not among the sources. By the spec it holds one term per category (\<^verbatim>\<open>type\<close>) in
  insertion order; \<^verbatim>\<open>get\<close> returns the term of a category or nothing; \<^verbatim>\<open>add\<close>
  inserts a term and, under the lenient policy the spec ascribes to the source,
  overwrites the term of the same category in its place; \<^verbatim>\<open>remove\<close> deletes a category
  and is a no-op when it is absent; \<^verbatim>\<open>reset\<close> empties the collection; \<^verbatim>\<open>getTerms\<close>
  is the sequence of the held terms.
\<close>

definition filters_get :: "filter_term list \<Rightarrow> string \<Rightarrow> filter_term option" where
  "filters_get fs t = find (\<lambda>f. type f = t) fs"

fun filters_add :: "filter_term list \<Rightarrow> filter_term \<Rightarrow> filter_term list" where
  "filters_add [] f = [f]"
| "filters_add (x # xs) f = (if type x = type f then f # xs else x # filters_add xs f)"

definition filters_remove :: "filter_term list \<Rightarrow> string \<Rightarrow> filter_term list" where
  "filters_remove fs t = filter (\<lambda>f. type f \<noteq> t) fs"

definition filters_reset :: "filter_term list" where
  "filters_reset = []"

definition getTerms :: "filter_term list \<Rightarrow> filter_term list" where
  "getTerms fs = fs"

text \<open>
  Modelled from the spec: the search form (\<^verbatim>\<open>js/discovery/views/search_form\<close>) is not
  among the sources. The loading indicator is shown from \<^verbatim>\<open>showLoadingIndicator\<close> to
  the next \<^verbatim>\<open>hideLoadingIndicator\<close>.
\<close>

definition loading :: "call list \<Rightarrow> bool" where
  "loading cs =
     foldl (\<lambda>b c. if c = ShowLoadingIndicator then True
                   else if c = HideLoadingIndicator then False else b) False cs"

text \<open>The listener on the form's \<^verbatim>\<open>search\<close> event.\<close>

definition on_form_search :: "string \<Rightarrow> coordinator \<Rightarrow> coordinator" where
  "on_form_search q s =
     (let s1 = s\<lparr>filters := filters_reset\<rparr>;
          s2 = emit ShowLoadingIndicator s1
      in emit (PerformSearch q (getTerms (filters s2))) s2)"

text \<open>
  Modelled from the spec: \<^verbatim>\<open>form.doSearch(term)\<close> submits \<^verbatim>\<open>term\<close> as a free-text
  search (``re-run as a fresh empty search'' for the empty term), that is, the form
  emits its \<^verbatim>\<open>search\<close> event, which the listener above handles.
\<close>

definition doSearch :: "string \<Rightarrow> coordinator \<Rightarrow> coordinator" where
  "doSearch q s = on_form_search q (emit (DoSearch q) s)"

definition removeFilter :: "string \<Rightarrow> coordinator \<Rightarrow> coordinator" where
  "removeFilter t s =
     (let s1 = emit ShowLoadingIndicator s;
          s2 = s1\<lparr>filters := filters_remove (filters s1) t\<rparr>
      in if t = ''search_query'' then doSearch [] s2
         else emit (RefineSearch (getTerms (filters s2))) s2)"

definition quote :: "string \<Rightarrow> string" where
  "quote string = [CHR 0x22] @ string @ [CHR 0x22]"

definition handleQueryParams :: "string \<Rightarrow> string \<Rightarrow> string \<Rightarrow> coordinator \<Rightarrow> coordinator" where
  "handleQueryParams t q n s =
     (let s1 = emit ShowLoadingIndicator s
      in if filters_get (filters s1) t \<noteq> None then removeFilter t s1
         else (let s2 = s1\<lparr>filters := filters_add (filters s1) \<lparr>type = t, query = q, name = n\<rparr>\<rparr>
               in emit (RefineSearch (getTerms (filters s2))) s2))"

text \<open>
  The listener on the search state's \<^verbatim>\<open>search\<close> event, with the query and the total
  the event carries. An empty query is falsy.
\<close>

definition on_search :: "string \<Rightarrow> int \<Rightarrow> coordinator \<Rightarrow> coordinator" where
  "on_search q n s =
     (let s1 = (if 0 < n then
                  (let s' = emit (ShowFoundMessage n) s
                   in if q \<noteq> [] then
                        s'\<lparr>filters := filters_add (filters s')
                                         \<lparr>type = ''search_query'', query = q, name = quote q\<rparr>\<rparr>
                      else s')
                else
                  (let s' = emit (ShowNotFoundMessage q) s
                   in s'\<lparr>filters := filters_reset\<rparr>))
      in emit SidebarRender (emit ListingRender (emit HideLoadingIndicator s1)))"

text \<open>The listener on the search state's \<^verbatim>\<open>error\<close> event; \<open>msg\<close> is \<^verbatim>\<open>search.errorMessage\<close>.\<close>

definition on_error :: "string \<Rightarrow> coordinator \<Rightarrow> coordinator" where
  "on_error msg s = emit HideLoadingIndicator (emit (ShowErrorMessage msg) s)"

section \<open>Scenarios\<close>

text \<open>
  The page of the spec's scenario: two documents of subject \<^verbatim>\<open>cs\<close>, one of them a
  video, and the aggregation \<^verbatim>\<open>{subject: {terms: {cs: 2}, total: 2, other: 0}}\<close>.
\<close>

definition doc_video :: result where
  "doc_video = \<lparr>data = [(''id'', JStr ''v1''), (''course_type'', JStr ''video''),
                        (''subject'', JStr ''cs'')]\<rparr>"

definition doc_course :: result where
  "doc_course = \<lparr>data = [(''id'', JStr ''c1''), (''course_type'', JStr ''course''),
                         (''subject'', JStr ''cs'')]\<rparr>"

definition scenario_response :: response where
  "scenario_response =
     \<lparr>results = Some [doc_video, doc_course],
      aggs = Some [(''subject'', Some \<lparr>terms = Some [(''cs'', 2)], total = 2, other = 0\<rparr>)]\<rparr>"






definition unordered_response :: response where
  "unordered_response =
     \<lparr>results = Some [doc_course],
      aggs = Some [(''subject'',
                    Some \<lparr>terms = Some [(''math'', 1), (''cs'', 2)], total = 3, other = 0\<rparr>)]\<rparr>"




text \<open>
  Two states of the coordinator: at the start, with no filter and no call made, and
  after the refinement \<^verbatim>\<open>(subject, cs, Computer Science)\<close> was selected.
\<close>

definition start :: coordinator where
  "start = \<lparr>filters = [], calls = []\<rparr>"

definition refined :: coordinator where
  "refined =
     \<lparr>filters = [\<lparr>type = ''subject'', query = ''cs'', name = ''Computer Science''\<rparr>],
      calls = [ShowLoadingIndicator,
               RefineSearch [\<lparr>type = ''subject'', query = ''cs'', name = ''Computer Science''\<rparr>]]\<rparr>"

section \<open>Counts of a page\<close>

lemma after_parse_counts:
  "totalCount (after (parse pathname response this)) = int (length (survivors pathname response))"
  "latestCount (after (parse pathname response this)) = int (length (survivors pathname response))"
  by (simp_all add: parse_def after_def survivors_def raw_def Let_def split: sum.splits prod.splits)

lemma filter_length_eq_iff: "(length (filter P xs) = length xs) = (filter P xs = xs)"
proof
  assume h: "length (filter P xs) = length xs"
  show "filter P xs = xs"
    using h
  proof (induction xs)
    case Nil
    then show ?case by simp
  next
    case (Cons x xs)
    have le: "length (filter P xs) \<le> length xs" by (rule length_filter_le)
    have "P x"
    proof (rule ccontr)
      assume "\<not> P x"
      with Cons.prems have "length (filter P xs) = Suc (length xs)" by simp
      with le show False by arith
    qed
    with Cons show ?case by simp
  qed
next
  assume "filter P xs = xs"
  then show "length (filter P xs) = length xs" by simp
qed

text \<open>
  C1, as the code has it. The claim says that \<open>totalCount\<close> is the raw result count of
  the page, before the filter. The code assigns \<^verbatim>\<open>courses.length\<close> after the filter:
  after every call of \<open>parse\<close>, returned or raised, \<open>totalCount\<close> is the number of
  documents of the page that survive the filter; it is at most the raw count of the
  page, and equal to it exactly when the filter removed no document.
\<close>

theorem parse_totalCount_survivors:
  "totalCount (after (parse pathname response this)) = int (length (survivors pathname response))
   \<and> totalCount (after (parse pathname response this)) \<le> int (length (raw response))
   \<and> ((totalCount (after (parse pathname response this)) = int (length (raw response)))
        = (survivors pathname response = raw response))"
proof -
  have a: "totalCount (after (parse pathname response this))
             = int (length (survivors pathname response))"
    by (rule after_parse_counts)
  have b: "length (survivors pathname response) \<le> length (raw response)"
    by (simp add: survivors_def)
  have c: "(length (survivors pathname response) = length (raw response))
             = (survivors pathname response = raw response)"
    unfolding survivors_def by (rule filter_length_eq_iff)
  from a b c show ?thesis by simp
qed

text \<open>
  C1 as stated fails on the page of the scenario: the server sent two documents, the
  filter removed the video, and \<open>totalCount\<close> is 1, not the raw count 2.
\<close>

theorem totalCount_raw_counterexample:
  "int (length (raw scenario_response)) = 2
   \<and> totalCount (after (parse ''/courses'' scenario_response initialize)) = 1"
  by code_simp

text \<open>
  C9: after every call of \<open>parse\<close>, returned or raised, \<open>totalCount\<close> equals
  \<open>latestCount\<close>, and both are the number of documents of the page that survive the
  filter.
\<close>

theorem parse_counts_equal:
  "totalCount (after (parse pathname response this))
     = latestCount (after (parse pathname response this))
   \<and> latestCount (after (parse pathname response this))
       = int (length (survivors pathname response))"
  by (simp add: after_parse_counts)

section \<open>The scenario\<close>

text \<open>
  C2, as the code has it. On the page of the scenario (not \<^verbatim>\<open>/videos\<close>, so videos are
  excluded), from the initial model, \<open>parse\<close> returns with \<open>latestCount\<close> 1, the
  non-video document as the only card, and the one option of \<^verbatim>\<open>subject\<close>, \<^verbatim>\<open>cs\<close> with
  count 3: the server's 2 plus the 1 tallied from the surviving document.
\<close>

theorem scenario_merge:
  "parse ''/courses'' scenario_response initialize =
     Inr \<lparr>totalCount = 1, latestCount = 1, courseCards = [data doc_course],
           facetOptions = [\<lparr>facet = ''subject'', term = ''cs'', count = 3\<rparr>]\<rparr>"
  by code_simp

text \<open>
  C2 as stated fails there: the option of \<^verbatim>\<open>subject\<close>, \<^verbatim>\<open>cs\<close> with count 1 is not in the
  collection after the merge.
\<close>

theorem scenario_count_counterexample:
  "\<lparr>facet = ''subject'', term = ''cs'', count = 1\<rparr>
     \<notin> set (facetOptions (after (parse ''/courses'' scenario_response initialize)))"
  by code_simp

section \<open>The coordinator's listeners\<close>

lemma filters_get_add:
  "filters_get (filters_add fs f) t = (if t = type f then Some f else filters_get fs t)"
  by (induction fs) (auto simp: filters_get_def)

lemma filters_add_absent:
  "filters_get fs (type f) = None \<Longrightarrow> filters_add fs f = fs @ [f]"
  by (induction fs) (auto simp: filters_get_def split: if_splits)

lemma length_filters_add:
  "length (filters_add fs f)
     = (if filters_get fs (type f) = None then Suc (length fs) else length fs)"
  by (induction fs) (auto simp: filters_get_def)

lemma filters_get_remove:
  "filters_get (filters_remove fs t) t' = (if t' = t then None else filters_get fs t')"
  by (induction fs) (auto simp: filters_get_def filters_remove_def)

lemma filters_remove_absent:
  "filters_get fs t = None \<Longrightarrow> filters_remove fs t = fs"
  by (induction fs) (auto simp: filters_get_def filters_remove_def split: if_splits)

lemma loading_snoc:
  "loading (cs @ [c]) =
     (if c = ShowLoadingIndicator then True else if c = HideLoadingIndicator then False
      else loading cs)"
  by (simp add: loading_def)

lemma on_search_found_calls:
  "0 < n \<Longrightarrow> calls (on_search q n s)
     = calls s @ [ShowFoundMessage n, HideLoadingIndicator, ListingRender, SidebarRender]"
  by (simp add: on_search_def emit_def Let_def)

lemma on_search_found_filters:
  "0 < n \<Longrightarrow> filters (on_search q n s)
     = (if q \<noteq> [] then filters_add (filters s)
                          \<lparr>type = ''search_query'', query = q, name = quote q\<rparr>
        else filters s)"
  by (simp add: on_search_def emit_def Let_def)

lemma on_search_none:
  "\<not> 0 < n \<Longrightarrow> calls (on_search q n s)
     = calls s @ [ShowNotFoundMessage q, HideLoadingIndicator, ListingRender, SidebarRender]"
  "\<not> 0 < n \<Longrightarrow> filters (on_search q n s) = []"
  by (simp_all add: on_search_def emit_def Let_def filters_reset_def)

lemma on_search_not_loading: "\<not> loading (calls (on_search q n s))"
proof -
  obtain cs where "calls (on_search q n s) = (cs @ [HideLoadingIndicator]) @ [ListingRender] @ [SidebarRender]"
    by (simp add: on_search_def emit_def Let_def)
  then show ?thesis
    by (simp add: loading_def)
qed

lemma removeFilter_other:
  "t \<noteq> ''search_query'' \<Longrightarrow>
     removeFilter t s
       = \<lparr>filters = filters_remove (filters s) t,
          calls = calls s @ [ShowLoadingIndicator, RefineSearch (filters_remove (filters s) t)]\<rparr>"
  by (simp add: removeFilter_def emit_def Let_def getTerms_def)

lemma removeFilter_search_query:
  "removeFilter ''search_query'' s
     = \<lparr>filters = [],
        calls = calls s @ [ShowLoadingIndicator, DoSearch [], ShowLoadingIndicator,
                           PerformSearch [] []]\<rparr>"
  by (simp add: removeFilter_def doSearch_def on_form_search_def emit_def Let_def getTerms_def
      filters_reset_def)

lemma handleQueryParams_active:
  "filters_get (filters s) t \<noteq> None \<Longrightarrow>
     handleQueryParams t q n s = removeFilter t (emit ShowLoadingIndicator s)"
  by (simp add: handleQueryParams_def emit_def Let_def)

lemma handleQueryParams_inactive:
  "filters_get (filters s) t = None \<Longrightarrow>
     handleQueryParams t q n s
       = \<lparr>filters = filters s @ [\<lparr>type = t, query = q, name = n\<rparr>],
          calls = calls s @ [ShowLoadingIndicator,
                             RefineSearch (filters s @ [\<lparr>type = t, query = q, name = n\<rparr>])]\<rparr>"
  by (simp add: handleQueryParams_def emit_def Let_def getTerms_def filters_add_absent)

text \<open>
  C6: the listener on the search state's \<^verbatim>\<open>search\<close> event. With a positive total it
  shows the found message and, when the query is not empty, the filters hold afterwards
  one term of category \<^verbatim>\<open>search_query\<close>, with the query and the query in double quotes
  as its label, added with merge: the other categories are as before and a term of that
  category held before is replaced, not duplicated; with an empty query the filters are
  unchanged. With total 0 it shows the not-found message and the filters are empty
  afterwards. In every case the calls end with hiding the loading indicator and the two
  renderings, and the loading indicator is hidden.
\<close>

theorem search_event:
  "(0 < n \<longrightarrow>
      calls (on_search q n s)
        = calls s @ [ShowFoundMessage n, HideLoadingIndicator, ListingRender, SidebarRender]
      \<and> (q \<noteq> [] \<longrightarrow>
            filters_get (filters (on_search q n s)) ''search_query''
              = Some \<lparr>type = ''search_query'', query = q, name = [CHR 0x22] @ q @ [CHR 0x22]\<rparr>
            \<and> (\<forall>t. t \<noteq> ''search_query'' \<longrightarrow>
                  filters_get (filters (on_search q n s)) t = filters_get (filters s) t)
            \<and> length (filters (on_search q n s))
                = (if filters_get (filters s) ''search_query'' = None
                   then Suc (length (filters s)) else length (filters s)))
      \<and> (q = [] \<longrightarrow> filters (on_search q n s) = filters s))
   \<and> (n = 0 \<longrightarrow>
      calls (on_search q n s)
        = calls s @ [ShowNotFoundMessage q, HideLoadingIndicator, ListingRender, SidebarRender]
      \<and> filters (on_search q n s) = [])
   \<and> \<not> loading (calls (on_search q n s))"
proof (intro conjI impI allI)
  assume "0 < n"
  then show "calls (on_search q n s)
        = calls s @ [ShowFoundMessage n, HideLoadingIndicator, ListingRender, SidebarRender]"
    by (rule on_search_found_calls)
next
  assume "0 < n" "q \<noteq> []"
  then show "filters_get (filters (on_search q n s)) ''search_query''
              = Some \<lparr>type = ''search_query'', query = q, name = [CHR 0x22] @ q @ [CHR 0x22]\<rparr>"
    by (simp add: on_search_found_filters filters_get_add quote_def)
next
  fix t assume "0 < n" "q \<noteq> []" "t \<noteq> ''search_query''"
  then show "filters_get (filters (on_search q n s)) t = filters_get (filters s) t"
    by (simp add: on_search_found_filters filters_get_add)
next
  assume "0 < n" "q \<noteq> []"
  then show "length (filters (on_search q n s))
                = (if filters_get (filters s) ''search_query'' = None
                   then Suc (length (filters s)) else length (filters s))"
    by (simp add: on_search_found_filters length_filters_add)
next
  assume "0 < n" "q = []"
  then show "filters (on_search q n s) = filters s"
    by (simp add: on_search_found_filters)
next
  assume "n = 0"
  then show "calls (on_search q n s)
        = calls s @ [ShowNotFoundMessage q, HideLoadingIndicator, ListingRender, SidebarRender]"
    by (simp add: on_search_none)
next
  assume "n = 0"
  then show "filters (on_search q n s) = []"
    by (simp add: on_search_none)
next
  show "\<not> loading (calls (on_search q n s))"
    by (rule on_search_not_loading)
qed

theorem search_event_witness:
  "calls (on_search ''python'' 3 start)
     = [ShowFoundMessage 3, HideLoadingIndicator, ListingRender, SidebarRender]
   \<and> filters_get (filters (on_search ''python'' 3 start)) ''search_query''
       = Some \<lparr>type = ''search_query'', query = ''python'',
                name = [CHR 0x22] @ ''python'' @ [CHR 0x22]\<rparr>
   \<and> length (filters (on_search ''python'' 3 start)) = 1
   \<and> calls (on_search ''python'' 0 refined)
       = calls refined
         @ [ShowNotFoundMessage ''python'', HideLoadingIndicator, ListingRender, SidebarRender]
   \<and> filters (on_search ''python'' 0 refined) = []
   \<and> \<not> loading (calls (on_search ''python'' 0 refined))"
  using search_event [of 3 "''python''" start] search_event [of 0 "''python''" refined]
  by (simp add: start_def refined_def filters_get_def loading_def)

text \<open>
  C7: the selection of a refinement option \<open>(t, q, n)\<close>. When a filter of category
  \<open>t\<close> is active, the selection removes it: no filter of that category is held
  afterwards, and a search is issued again, by \<^verbatim>\<open>refineSearch\<close> with the remaining terms
  or, for the category \<^verbatim>\<open>search_query\<close>, by a fresh empty search of the form. When none is
  active, the term is added at the end of the filters and \<^verbatim>\<open>refineSearch\<close> is called
  with the updated terms; selecting the same option a second time then gives back the
  filters as they were and a search with them, the term absent.
\<close>

theorem select_option:
  "(filters_get (filters s) t \<noteq> None \<longrightarrow>
      filters_get (filters (handleQueryParams t q n s)) t = None
      \<and> (t \<noteq> ''search_query'' \<longrightarrow>
            filters (handleQueryParams t q n s) = filters_remove (filters s) t
            \<and> calls (handleQueryParams t q n s)
                = calls s @ [ShowLoadingIndicator, ShowLoadingIndicator,
                             RefineSearch (filters_remove (filters s) t)])
      \<and> (t = ''search_query'' \<longrightarrow>
            filters (handleQueryParams t q n s) = []
            \<and> calls (handleQueryParams t q n s)
                = calls s @ [ShowLoadingIndicator, ShowLoadingIndicator, DoSearch [],
                             ShowLoadingIndicator, PerformSearch [] []]))
   \<and> (filters_get (filters s) t = None \<longrightarrow>
      filters (handleQueryParams t q n s) = filters s @ [\<lparr>type = t, query = q, name = n\<rparr>]
      \<and> calls (handleQueryParams t q n s)
          = calls s @ [ShowLoadingIndicator,
                       RefineSearch (filters s @ [\<lparr>type = t, query = q, name = n\<rparr>])]
      \<and> (t \<noteq> ''search_query'' \<longrightarrow>
            filters (handleQueryParams t q n (handleQueryParams t q n s)) = filters s
            \<and> last (calls (handleQueryParams t q n (handleQueryParams t q n s)))
                = RefineSearch (filters s)))"
proof (intro conjI impI)
  assume a: "filters_get (filters s) t \<noteq> None"
  show "filters_get (filters (handleQueryParams t q n s)) t = None"
  proof (cases "t = ''search_query''")
    case True
    with a show ?thesis
      by (simp add: handleQueryParams_active removeFilter_search_query filters_get_def)
  next
    case False
    with a show ?thesis
      by (simp add: handleQueryParams_active removeFilter_other filters_get_remove emit_def)
  qed
next
  assume "filters_get (filters s) t \<noteq> None" "t \<noteq> ''search_query''"
  then show "filters (handleQueryParams t q n s) = filters_remove (filters s) t"
    by (simp add: handleQueryParams_active removeFilter_other emit_def)
next
  assume "filters_get (filters s) t \<noteq> None" "t \<noteq> ''search_query''"
  then show "calls (handleQueryParams t q n s)
                = calls s @ [ShowLoadingIndicator, ShowLoadingIndicator,
                             RefineSearch (filters_remove (filters s) t)]"
    by (simp add: handleQueryParams_active removeFilter_other emit_def)
next
  assume "filters_get (filters s) t \<noteq> None" "t = ''search_query''"
  then show "filters (handleQueryParams t q n s) = []"
    by (simp add: handleQueryParams_active removeFilter_search_query)
next
  assume "filters_get (filters s) t \<noteq> None" "t = ''search_query''"
  then show "calls (handleQueryParams t q n s)
                = calls s @ [ShowLoadingIndicator, ShowLoadingIndicator, DoSearch [],
                             ShowLoadingIndicator, PerformSearch [] []]"
    by (simp add: handleQueryParams_active removeFilter_search_query emit_def)
next
  assume "filters_get (filters s) t = None"
  then show "filters (handleQueryParams t q n s) = filters s @ [\<lparr>type = t, query = q, name = n\<rparr>]"
    by (simp add: handleQueryParams_inactive)
next
  assume "filters_get (filters s) t = None"
  then show "calls (handleQueryParams t q n s)
          = calls s @ [ShowLoadingIndicator,
                       RefineSearch (filters s @ [\<lparr>type = t, query = q, name = n\<rparr>])]"
    by (simp add: handleQueryParams_inactive)
next
  assume a: "filters_get (filters s) t = None" and b: "t \<noteq> ''search_query''"
  have "filters s @ [\<lparr>type = t, query = q, name = n\<rparr>]
          = filters_add (filters s) \<lparr>type = t, query = q, name = n\<rparr>"
    using a by (simp add: filters_add_absent)
  then have c: "filters_get (filters (handleQueryParams t q n s)) t \<noteq> None"
    using a by (simp add: handleQueryParams_inactive filters_get_add)
  have d: "filters_remove (filters s @ [\<lparr>type = t, query = q, name = n\<rparr>]) t = filters s"
    using filters_remove_absent [OF a] by (simp add: filters_remove_def)
  have e: "handleQueryParams t q n (handleQueryParams t q n s)
             = removeFilter t (emit ShowLoadingIndicator (handleQueryParams t q n s))"
    using c by (rule handleQueryParams_active)
  show "filters (handleQueryParams t q n (handleQueryParams t q n s)) = filters s"
    unfolding e using a b d
    by (simp add: removeFilter_other emit_def handleQueryParams_inactive)
  show "last (calls (handleQueryParams t q n (handleQueryParams t q n s)))
                = RefineSearch (filters s)"
    unfolding e using a b d
    by (simp add: removeFilter_other emit_def handleQueryParams_inactive)
qed

theorem select_option_witness:
  "filters (handleQueryParams ''subject'' ''cs'' ''Computer Science'' start)
     = [\<lparr>type = ''subject'', query = ''cs'', name = ''Computer Science''\<rparr>]
   \<and> calls (handleQueryParams ''subject'' ''cs'' ''Computer Science'' start)
       = [ShowLoadingIndicator,
          RefineSearch [\<lparr>type = ''subject'', query = ''cs'', name = ''Computer Science''\<rparr>]]
   \<and> filters (handleQueryParams ''subject'' ''cs'' ''Computer Science'' refined) = []
   \<and> calls (handleQueryParams ''subject'' ''cs'' ''Computer Science'' refined)
       = calls refined @ [ShowLoadingIndicator, ShowLoadingIndicator, RefineSearch []]"
  using select_option [of start "''subject''" "''cs''" "''Computer Science''"]
    select_option [of refined "''subject''" "''cs''" "''Computer Science''"]
  by (simp add: start_def refined_def filters_get_def filters_remove_def)

section \<open>The options of a category\<close>

lemma distinct_object_keys: "distinct (object_keys obj)"
  by (simp add: object_keys_def entries_def)

lemma set_object_keys: "set (object_keys obj) = fst ` set obj"
  by (simp add: object_keys_def entries_def dom_clearjunk)

lemma set_object_keys_dom: "set (object_keys obj) = dom (map_of obj)"
  by (simp add: set_object_keys dom_map_of_conv_image_fst)

lemma map_of_entries: "map_of (entries obj) = map_of obj"
  by (simp add: entries_def map_of_clearjunk)

lemma distinct_entries: "distinct (map fst (entries obj))"
  by (simp add: entries_def)

lemma object_keys_cong:
  assumes "map_of ts = map_of ts'"
  shows "sort (object_keys ts) = sort (object_keys ts')"
proof (rule sorted_distinct_set_unique)
  show "set (sort (object_keys ts)) = set (sort (object_keys ts'))"
    using assms by (simp add: set_object_keys_dom)
qed (simp_all add: distinct_object_keys)

lemma map_filter_all_Some:
  "(\<And>x. x \<in> set xs \<Longrightarrow> f x = Some (g x)) \<Longrightarrow> List.map_filter f xs = map g xs"
  by (induction xs) (simp_all add: List.map_filter_simps)

lemma options_of_terms:
  "options_of key obj
     = (case terms obj of
          None \<Rightarrow> []
        | Some ts \<Rightarrow>
            map (\<lambda>t. \<lparr>facet = key, term = t, count = the (map_of ts t)\<rparr>) (sort (object_keys ts)))"
proof (cases "terms obj")
  case None
  then show ?thesis by (simp add: options_of_def)
next
  case (Some ts)
  have "List.map_filter
          (\<lambda>t. map_option (\<lambda>c. \<lparr>facet = key, term = t, count = c\<rparr>) (map_of ts t))
          (sort (object_keys ts))
        = map (\<lambda>t. \<lparr>facet = key, term = t, count = the (map_of ts t)\<rparr>) (sort (object_keys ts))"
  proof (rule map_filter_all_Some)
    fix x assume "x \<in> set (sort (object_keys ts))"
    then have "x \<in> dom (map_of ts)" by (simp add: set_object_keys_dom)
    then show "map_option (\<lambda>c. \<lparr>facet = key, term = x, count = c\<rparr>) (map_of ts x)
                 = Some \<lparr>facet = key, term = x, count = the (map_of ts x)\<rparr>"
      by auto
  qed
  with Some show ?thesis by (simp add: options_of_def)
qed

lemma map_term_options_of:
  "map term (options_of key obj)
     = (case terms obj of None \<Rightarrow> [] | Some ts \<Rightarrow> sort (object_keys ts))"
  by (simp add: options_of_terms comp_def split: option.splits)

lemma map_facet_options_of:
  "map facet (options_of key obj) = replicate (length (options_of key obj)) key"
  by (simp add: options_of_terms comp_def map_replicate_const split: option.splits)

lemma strict_sorted_options_of: "sorted_wrt (<) (map term (options_of key obj))"
  by (simp add: map_term_options_of strict_sorted_iff distinct_object_keys split: option.splits)

lemma options_of_cong:
  assumes "map_of ts = map_of ts'"
  shows "options_of key (obj\<lparr>terms := Some ts\<rparr>) = options_of key (obj\<lparr>terms := Some ts'\<rparr>)"
  using assms object_keys_cong [OF assms] by (simp add: options_of_def)

lemma add_merge_append:
  "\<forall>y\<in>set opts. \<not> (facet y = facet x \<and> term y = term x) \<Longrightarrow> add_merge opts x = opts @ [x]"
  by (induction opts) auto

lemma add_merges_append:
  "distinct (map (\<lambda>x. (facet x, term x)) xs) \<Longrightarrow>
   \<forall>y\<in>set opts. (facet y, term y) \<notin> (\<lambda>x. (facet x, term x)) ` set xs \<Longrightarrow>
     foldl add_merge opts xs = opts @ xs"
proof (induction xs arbitrary: opts)
  case Nil
  show ?case by simp
next
  case (Cons x xs)
  have a: "add_merge opts x = opts @ [x]"
  proof (rule add_merge_append, rule ballI)
    fix y assume "y \<in> set opts"
    with Cons.prems(2) have "(facet y, term y) \<noteq> (facet x, term x)" by force
    then show "\<not> (facet y = facet x \<and> term y = term x)" by simp
  qed
  from Cons.prems(1) have d: "distinct (map (\<lambda>x. (facet x, term x)) xs)"
    and n: "(facet x, term x) \<notin> (\<lambda>x. (facet x, term x)) ` set xs" by auto
  have b: "\<forall>y\<in>set (opts @ [x]). (facet y, term y) \<notin> (\<lambda>x. (facet x, term x)) ` set xs"
  proof
    fix y assume "y \<in> set (opts @ [x])"
    then have "y \<in> set opts \<or> y = x" by auto
    then show "(facet y, term y) \<notin> (\<lambda>x. (facet x, term x)) ` set xs"
    proof
      assume "y \<in> set opts"
      with Cons.prems(2) show ?thesis by force
    next
      assume "y = x"
      with n show ?thesis by simp
    qed
  qed
  have "foldl add_merge opts (x # xs) = foldl add_merge (opts @ [x]) xs" by (simp add: a)
  also have "\<dots> = (opts @ [x]) @ xs" using d b by (rule Cons.IH)
  finally show ?case by simp
qed

lemma facet_options_of: "x \<in> set (options_of key obj) \<Longrightarrow> facet x = key"
  by (auto simp: options_of_terms split: option.splits)

lemma distinct_keys_options_of:
  "distinct (map (\<lambda>x. (facet x, term x)) (options_of key obj))"
proof -
  have "distinct (map term (options_of key obj))"
    using strict_sorted_options_of [of key obj] by (simp add: strict_sorted_iff)
  moreover have "distinct (map term xs) \<Longrightarrow> distinct (map (\<lambda>x. (facet x, term x)) xs)"
    for xs :: "facet_option list"
    by (induction xs) auto
  ultimately show ?thesis by blast
qed

lemma add_options_of_append:
  assumes "\<forall>y\<in>set opts. facet y \<noteq> key"
  shows "foldl add_merge opts (options_of key obj) = opts @ options_of key obj"
proof (rule add_merges_append [OF distinct_keys_options_of], rule ballI)
  fix y assume "y \<in> set opts"
  with assms have "facet y \<noteq> key" by simp
  then show "(facet y, term y) \<notin> (\<lambda>x. (facet x, term x)) ` set (options_of key obj)"
    by (auto dest: facet_options_of)
qed

lemma filter_facet_options_of:
  "filter (\<lambda>x. facet x = k) (options_of key obj) = (if k = key then options_of key obj else [])"
proof (cases "k = key")
  case True
  then have "\<forall>x\<in>set (options_of key obj). facet x = k" by (simp add: facet_options_of)
  with True show ?thesis by simp
next
  case False
  then have "\<forall>x\<in>set (options_of key obj). facet x \<noteq> k" by (simp add: facet_options_of)
  with False show ?thesis by simp
qed

lemma add_options_sorted:
  "add_options opts fs = Inr r \<Longrightarrow> distinct (map fst fs) \<Longrightarrow>
   \<forall>x\<in>set opts. facet x \<notin> fst ` set fs \<Longrightarrow>
   \<forall>k. sorted_wrt (<) (map term (filter (\<lambda>x. facet x = k) opts)) \<Longrightarrow>
     sorted_wrt (<) (map term (filter (\<lambda>x. facet x = k) r))"
proof (induction opts fs rule: add_options.induct)
  case (1 opts)
  then show ?case by simp
next
  case (2 opts key rest)
  then show ?case by simp
next
  case (3 opts key obj rest)
  let ?opts' = "opts @ options_of key obj"
  from "3.prems"(3) have nk: "\<forall>y\<in>set opts. facet y \<noteq> key" by auto
  have e: "foldl add_merge opts (options_of key obj) = ?opts'"
    using nk by (rule add_options_of_append)
  from "3.prems"(1) have a: "add_options (foldl add_merge opts (options_of key obj)) rest = Inr r"
    by simp
  from "3.prems"(2) have d: "distinct (map fst rest)" and n: "key \<notin> fst ` set rest" by auto
  have b: "\<forall>x\<in>set (foldl add_merge opts (options_of key obj)). facet x \<notin> fst ` set rest"
    unfolding e
  proof
    fix x assume "x \<in> set ?opts'"
    then have "x \<in> set opts \<or> x \<in> set (options_of key obj)" by auto
    then show "facet x \<notin> fst ` set rest"
    proof
      assume "x \<in> set opts"
      with "3.prems"(3) show ?thesis by auto
    next
      assume "x \<in> set (options_of key obj)"
      with n show ?thesis by (simp add: facet_options_of)
    qed
  qed
  have c: "\<forall>k. sorted_wrt (<) (map term (filter (\<lambda>x. facet x = k)
                                   (foldl add_merge opts (options_of key obj))))"
    unfolding e
  proof
    fix k
    show "sorted_wrt (<) (map term (filter (\<lambda>x. facet x = k) ?opts'))"
    proof (cases "k = key")
      case True
      with nk have "filter (\<lambda>x. facet x = k) opts = []" by (simp add: filter_empty_conv)
      with True show ?thesis
        by (simp add: filter_facet_options_of strict_sorted_options_of)
    next
      case False
      with "3.prems"(4) show ?thesis by (simp add: filter_facet_options_of)
    qed
  qed
  from "3.IH" [OF a d b c] show ?case .
qed

lemma parse_reset_sorted:
  assumes "parse pathname response (reset this) = Inr this'"
  shows "sorted_wrt (<) (map term (filter (\<lambda>x. facet x = k) (facetOptions this')))"
proof -
  from assms obtain fs2 where
    o: "add_options [] (entries fs2) = Inr (facetOptions this')"
    by (auto simp: parse_def Let_def reset_def split: sum.splits prod.splits)
  from o distinct_entries show ?thesis
    by (rule add_options_sorted) simp_all
qed

text \<open>
  C5: the options of a category are added in strictly ascending lexicographic order of
  their terms: the sequence \<open>options_of key obj\<close> that the loop adds for the category
  \<open>key\<close> is ascending in its terms, consists of options of that category, one for each
  term of the entry, and is the same for two entries that list the same terms and counts
  in different orders. After a merge into a reset model, the options of each category
  stand in the collection in that order.
\<close>

theorem options_ascending:
  "sorted_wrt (<) (map term (options_of key obj))
   \<and> map facet (options_of key obj) = replicate (length (options_of key obj)) key
   \<and> set (map term (options_of key obj))
       = (case terms obj of None \<Rightarrow> {} | Some ts \<Rightarrow> fst ` set ts)
   \<and> (map_of ts = map_of ts' \<longrightarrow>
        options_of key (obj\<lparr>terms := Some ts\<rparr>) = options_of key (obj\<lparr>terms := Some ts'\<rparr>))
   \<and> (parse pathname response (reset this) = Inr this' \<longrightarrow>
        sorted_wrt (<) (map term (filter (\<lambda>x. facet x = key) (facetOptions this'))))"
proof (intro conjI impI)
  show "sorted_wrt (<) (map term (options_of key obj))"
    by (rule strict_sorted_options_of)
  show "map facet (options_of key obj) = replicate (length (options_of key obj)) key"
    by (rule map_facet_options_of)
  show "set (map term (options_of key obj))
       = (case terms obj of None \<Rightarrow> {} | Some ts \<Rightarrow> fst ` set ts)"
    by (simp add: map_term_options_of set_object_keys split: option.splits)
next
  assume "map_of ts = map_of ts'"
  then show "options_of key (obj\<lparr>terms := Some ts\<rparr>) = options_of key (obj\<lparr>terms := Some ts'\<rparr>)"
    by (rule options_of_cong)
next
  assume "parse pathname response (reset this) = Inr this'"
  then show "sorted_wrt (<) (map term (filter (\<lambda>x. facet x = key) (facetOptions this')))"
    by (rule parse_reset_sorted)
qed

theorem options_ascending_witness:
  "map_of [(''b'', 1), (''a'', 2 :: int)] = map_of [(''a'', 2), (''b'', 1)]
   \<and> options_of ''subject'' \<lparr>terms = Some [(''b'', 1), (''a'', 2)], total = 3, other = 0\<rparr>
       = options_of ''subject'' \<lparr>terms = Some [(''a'', 2), (''b'', 1)], total = 3, other = 0\<rparr>
   \<and> parse ''/courses'' unordered_response (reset initialize)
       = Inr \<lparr>totalCount = 1, latestCount = 1, courseCards = [data doc_course],
               facetOptions = [\<lparr>facet = ''subject'', term = ''cs'', count = 3\<rparr>,
                               \<lparr>facet = ''subject'', term = ''math'', count = 1\<rparr>]\<rparr>
   \<and> sorted_wrt (<) [''cs'', ''math'']"
proof -
  have m: "map_of [(''b'', 1), (''a'', 2 :: int)] = map_of [(''a'', 2), (''b'', 1)]"
    by (auto simp: fun_eq_iff)
  have p: "parse ''/courses'' unordered_response (reset initialize)
       = Inr \<lparr>totalCount = 1, latestCount = 1, courseCards = [data doc_course],
               facetOptions = [\<lparr>facet = ''subject'', term = ''cs'', count = 3\<rparr>,
                               \<lparr>facet = ''subject'', term = ''math'', count = 1\<rparr>]\<rparr>"
    by code_simp
  note t = options_ascending [of "''subject''" "\<lparr>terms = None, total = 3, other = 0\<rparr>"
      "[(''b'', 1), (''a'', 2)]" "[(''a'', 2), (''b'', 1)]" "''/courses''" unordered_response
      initialize
      "\<lparr>totalCount = 1, latestCount = 1, courseCards = [data doc_course],
               facetOptions = [\<lparr>facet = ''subject'', term = ''cs'', count = 3\<rparr>,
                               \<lparr>facet = ''subject'', term = ''math'', count = 1\<rparr>]\<rparr>"]
  from t m have a: "options_of ''subject'' \<lparr>terms = Some [(''b'', 1), (''a'', 2)], total = 3, other = 0\<rparr>
       = options_of ''subject'' \<lparr>terms = Some [(''a'', 2), (''b'', 1)], total = 3, other = 0\<rparr>"
    by simp
  from t p have b: "sorted_wrt (<) [''cs'', ''math'']"
    by simp
  from m a p b show ?thesis by blast
qed

section \<open>The local tally\<close>


















section \<open>The merge of the tally into the aggregation\<close>

lemma map_of_merge_term:
  "map_of (merge_term ts p) t
     = (if t = fst p
        then (case map_of ts t of None \<Rightarrow> Some (snd p) | Some c \<Rightarrow> Some (c + snd p))
        else map_of ts t)"
  by (auto simp: merge_term_def update_conv' split: option.splits)

lemma map_of_merge_terms:
  "distinct (map fst ps) \<Longrightarrow>
     map_of (foldl merge_term ts ps) t
       = (case map_of ps t of
            None \<Rightarrow> map_of ts t
          | Some n \<Rightarrow> (case map_of ts t of None \<Rightarrow> Some n | Some c \<Rightarrow> Some (c + n)))"
proof (induction ps arbitrary: ts t)
  case Nil
  then show ?case by simp
next
  case (Cons p ps)
  from Cons.prems have d: "distinct (map fst ps)" and n: "fst p \<notin> fst ` set ps" by auto
  from n have none: "map_of ps (fst p) = None" by (simp add: map_of_eq_None_iff)
  have step: "map_of (foldl merge_term ts (p # ps)) t
      = (case map_of ps t of
            None \<Rightarrow> map_of (merge_term ts p) t
          | Some n \<Rightarrow> (case map_of (merge_term ts p) t of None \<Rightarrow> Some n | Some c \<Rightarrow> Some (c + n)))"
    using Cons.IH [OF d, of "merge_term ts p" t] by simp
  show ?case
  proof (cases "t = fst p")
    case True
    with none show ?thesis
      unfolding step by (simp add: map_of_merge_term)
  next
    case False
    then have "map_of (merge_term ts p) t = map_of ts t"
      by (simp add: map_of_merge_term)
    with False show ?thesis
      unfolding step by (simp cong: option.case_cong)
  qed
qed

text \<open>One category.\<close>

lemma merge_facet_other:
  "merge_facet fs p = Inr fs' \<Longrightarrow> k \<noteq> fst p \<Longrightarrow> map_of fs' k = map_of fs k"
  by (auto simp: merge_facet_def update_conv' split: option.splits if_splits)

lemma merge_facet_absent:
  assumes "map_of fs (fst p) = None \<or> map_of fs (fst p) = Some None"
  shows "merge_facet fs p
           = Inr (AList.update (fst p)
                    (Some \<lparr>terms = Some (snd p),
                           total = foldl (+) 0 (map snd (entries (snd p))),
                           other = 0\<rparr>) fs)"
  using assms by (auto simp: merge_facet_def)

lemma merge_facet_present:
  assumes "map_of fs (fst p) = Some (Some e)" "terms e = Some ts"
  shows "\<exists>fs'. merge_facet fs p = Inr fs'
           \<and> map_of fs' (fst p)
               = Some (Some (e\<lparr>terms := Some (foldl merge_term ts (entries (snd p)))\<rparr>))"
proof (cases "entries (snd p) = []")
  case True
  with assms show ?thesis by (simp add: merge_facet_def)
next
  case False
  with assms show ?thesis by (simp add: merge_facet_def update_conv')
qed

text \<open>The loop.\<close>

lemma merge_facets_other:
  "merge_facets fs ps = Inr fs' \<Longrightarrow> k \<notin> fst ` set ps \<Longrightarrow> map_of fs' k = map_of fs k"
proof (induction ps arbitrary: fs)
  case Nil
  then show ?case by simp
next
  case (Cons p ps)
  from Cons.prems(1) obtain fs1 where
    s1: "merge_facet fs p = Inr fs1" and s2: "merge_facets fs1 ps = Inr fs'"
    by (auto split: sum.splits)
  from Cons.prems(2) have "k \<noteq> fst p" "k \<notin> fst ` set ps" by auto
  with Cons.IH [OF s2] merge_facet_other [OF s1] show ?case by simp
qed

lemma merge_facets_step:
  assumes "distinct (map fst ps)" "merge_facets fs ps = Inr fs'" "p \<in> set ps"
  shows "\<exists>fs0 fs1. map_of fs0 (fst p) = map_of fs (fst p) \<and> merge_facet fs0 p = Inr fs1
           \<and> map_of fs' (fst p) = map_of fs1 (fst p)"
  using assms
proof (induction ps arbitrary: fs)
  case Nil
  then show ?case by simp
next
  case (Cons q ps)
  from Cons.prems(2) obtain fs1 where
    s1: "merge_facet fs q = Inr fs1" and s2: "merge_facets fs1 ps = Inr fs'"
    by (auto split: sum.splits)
  from Cons.prems(1) have d: "distinct (map fst ps)" and n: "fst q \<notin> fst ` set ps" by auto
  show ?case
  proof (cases "p = q")
    case True
    from merge_facets_other [OF s2 n] have "map_of fs' (fst q) = map_of fs1 (fst q)" .
    with s1 True show ?thesis by blast
  next
    case False
    with Cons.prems(3) have m: "p \<in> set ps" by simp
    with n have "fst p \<noteq> fst q" by (metis image_eqI)
    then have "map_of fs1 (fst p) = map_of fs (fst p)"
      using merge_facet_other [OF s1] by simp
    with Cons.IH [OF d s2 m] show ?thesis by simp
  qed
qed

lemma foldl_plus_sum_list: "foldl (+) (a::int) xs = a + sum_list xs"
  by (induction xs arbitrary: a) simp_all

text \<open>
  The merge rule on plain keys. When the loop over the tally returns, then for every
  category \<open>c\<close> of the tally with its counts \<open>vs\<close>: if the aggregation has no entry
  for \<open>c\<close> (none, or \<^verbatim>\<open>null\<close>), the entry afterwards is made of the tally, with
  \<open>total\<close> the sum of its counts and \<open>other\<close> 0; if the aggregation has an entry with
  terms, the entry keeps its other fields, and each term's count afterwards is the
  server's count plus the tallied count when both exist, the tallied count when the
  server has none for the term, and the server's count when the tally has none. The
  categories and the tallied terms are plain, and no tallied term is \<^verbatim>\<open>length\<close>.
\<close>

lemma merge_rule_plain:
  assumes "merge_facets fs (entries allFacets) = Inr fs'"
    and "map_of allFacets c = Some vs"
    and "\<forall>x\<in>fst ` set allFacets. plain x"
    and "\<forall>t\<in>fst ` set vs. plain t \<and> t \<noteq> ''length''"
  shows "(map_of fs c = None \<or> map_of fs c = Some None \<longrightarrow>
            map_of fs' c
              = Some (Some \<lparr>terms = Some vs, total = sum_list (map snd (entries vs)), other = 0\<rparr>))
         \<and> (\<forall>e ts. map_of fs c = Some (Some e) \<and> terms e = Some ts \<longrightarrow>
              (\<exists>ts'. map_of fs' c = Some (Some (e\<lparr>terms := Some ts'\<rparr>))
                 \<and> (\<forall>t. map_of ts' t
                       = (case map_of vs t of
                            None \<Rightarrow> map_of ts t
                          | Some n \<Rightarrow>
                              (case map_of ts t of None \<Rightarrow> Some n | Some k \<Rightarrow> Some (k + n))))))"
proof -
  have d: "distinct (map fst (entries allFacets))" by (rule distinct_entries)
  have "map_of (entries allFacets) c = Some vs"
    using assms(2) by (simp add: map_of_entries)
  then have m: "(c, vs) \<in> set (entries allFacets)" by (rule map_of_SomeD)
  from merge_facets_step [OF d assms(1) m] obtain fs0 fs1 where
    e0: "map_of fs0 c = map_of fs c" and s: "merge_facet fs0 (c, vs) = Inr fs1"
    and r: "map_of fs' c = map_of fs1 c"
    by auto
  show ?thesis
  proof (intro conjI impI allI)
    assume "map_of fs c = None \<or> map_of fs c = Some None"
    with e0 have "map_of fs0 (fst (c, vs)) = None \<or> map_of fs0 (fst (c, vs)) = Some None"
      by simp
    from merge_facet_absent [OF this] s r
    show "map_of fs' c
            = Some (Some \<lparr>terms = Some vs, total = sum_list (map snd (entries vs)), other = 0\<rparr>)"
      by (auto simp: update_conv' foldl_plus_sum_list)
  next
    fix e ts assume "map_of fs c = Some (Some e) \<and> terms e = Some ts"
    with e0 have a: "map_of fs0 (fst (c, vs)) = Some (Some e)" and b: "terms e = Some ts"
      by simp_all
    from merge_facet_present [OF a b] s r
    have "map_of fs' c = Some (Some (e\<lparr>terms := Some (foldl merge_term ts (entries vs))\<rparr>))"
      by auto
    moreover have "map_of (foldl merge_term ts (entries vs)) t
        = (case map_of vs t of
             None \<Rightarrow> map_of ts t
           | Some n \<Rightarrow> (case map_of ts t of None \<Rightarrow> Some n | Some k \<Rightarrow> Some (k + n)))" for t
      using map_of_merge_terms [OF distinct_entries, of ts vs t] by (simp add: map_of_entries)
    ultimately show "\<exists>ts'. map_of fs' c = Some (Some (e\<lparr>terms := Some ts'\<rparr>))
                 \<and> (\<forall>t. map_of ts' t
                       = (case map_of vs t of
                            None \<Rightarrow> map_of ts t
                          | Some n \<Rightarrow>
                              (case map_of ts t of None \<Rightarrow> Some n | Some k \<Rightarrow> Some (k + n))))"
      by blast
  qed
qed

text \<open>
  C4 states the merge rule for every term, and the source departs from it where a key is
  not plain or the tally holds the term \<^verbatim>\<open>length\<close>. With the documents of subjects
  \<^verbatim>\<open>length\<close> and \<^verbatim>\<open>cs\<close> and the aggregation
  \<^verbatim>\<open>{subject: {terms: {cs: 2}, total: 2, other: 0}}\<close> the tally of \<^verbatim>\<open>subject\<close> is
  \<^verbatim>\<open>{length: 1, cs: 1}\<close>; \<^verbatim>\<open>_.each\<close> reads it as an array of length 1 and calls the
  merge once, with the index 0 and no count, so that the terms afterwards are
  \<^verbatim>\<open>{0: undefined, cs: 2}\<close> where the rule gives \<^verbatim>\<open>{cs: 3, length: 1}\<close>. That input is
  outside the lemma above, by its last hypothesis.
\<close>

section \<open>Options across pages\<close>








section \<open>Missing and malformed aggregations\<close>























end
